theory Spec2Isabelle
  imports
    Main
    "HOL-Library.Sublist"
    "HOL-Library.Multiset"
    "HOL-Library.Char_ord"
    "HOL-Library.List_Lexorder"
begin

section \<open>Data model\<close>

text \<open>
  The dashboard component (\<^verbatim>\<open>FinanceDashboard.tsx\<close>; a second copy of the file differs
  only in \<^verbatim>\<open>loadData\<close>, \<^verbatim>\<open>handleRemoveTransaction\<close> and markup) declares
  \<^verbatim>\<open>Transaction\<close>, \<^verbatim>\<open>Summary\<close> and \<^verbatim>\<open>ViewMode\<close>.

  The texts that the component compares, lower-cases and sorts (description, category,
  search term, selected category) are lists of UTF-16 code units, each unit a number;
  \<open>units\<close> turns a literal into such a list. Identifiers and fixed messages, on which
  nothing is computed, stay \<open>string\<close>s.

  The field \<^verbatim>\<open>createdAt\<close> is a string in the source, not validated anywhere, and is
  only ever read through \<^verbatim>\<open>new Date(t.createdAt).getTime()\<close>. The model stores what
  that expression yields: \<open>Some\<close> of the milliseconds since the epoch when the string is
  a date, and \<open>None\<close>, for \<^verbatim>\<open>NaN\<close>, when it is not.
  The field \<^verbatim>\<open>type\<close> is called \<open>ttype\<close> and \<^verbatim>\<open>_id\<close> is called \<open>tid\<close>.
  Amounts and totals are carried as integers; no function modelled here computes with
  them.
\<close>

type_synonym ustring = "nat list"

definition units :: "string \<Rightarrow> ustring" where
  "units s = map of_char s"

datatype transaction_type = Income | Expense

record transaction =
  tid :: string
  ttype :: transaction_type
  amount :: int
  description :: ustring
  category :: ustring
  createdAt :: "int option"
  userId :: string

record summary =
  totalIncome :: int
  totalExpenses :: int
  balance :: int
  categorySummary :: "(ustring \<times> int) list"
  transactionCount :: nat

datatype ViewMode = DashboardView | ExpensesView | IncomeView | TransactionsView

text \<open>
  The two calls of the API client reject with a transport or HTTP error. What the
  component sends to the outside is kept in three logs: the requests issued, the lines
  written with \<^verbatim>\<open>console.error\<close>, and the \<^verbatim>\<open>alert\<close> boxes shown to the user.
\<close>

datatype api_error = NetworkError | HTTPError nat

datatype request = FetchTransactions string | DeleteTransaction string string

record app =
  transactions :: "transaction list"
  summary :: "summary option"
  loading :: bool
  currentView :: ViewMode
  searchTerm :: ustring
  selectedCategory :: ustring
  showBalance :: bool
  sidebarOpen :: bool
  requests :: "request list"
  console :: "(string \<times> api_error) list"
  alerts :: "string list"

text \<open>The initial values of the \<^verbatim>\<open>useState\<close> hooks, with empty logs.\<close>

definition initial_app :: app where
  "initial_app =
     \<lparr>transactions = [], summary = None, loading = True, currentView = DashboardView,
      searchTerm = [], selectedCategory = [], showBalance = True, sidebarOpen = False,
      requests = [], console = [], alerts = []\<rparr>"

section \<open>Strings and arrays of the host language\<close>

text \<open>
  \<^verbatim>\<open>String.prototype.toLowerCase\<close> replaces each character by its lower-case mapping
  of the Unicode character database, which need not be one unit long. The table here
  is that mapping for the units U+0000 to U+017F (Basic Latin, Latin-1 Supplement,
  Latin Extended-A) and for the combining marks U+0300 to U+036F, on which no rule
  depends on the neighbouring characters:
  \<^item> A to Z, and U+00C0 to U+00DE except the multiplication sign U+00D7, move up by 32;
  \<^item> U+0130, capital I with dot above, becomes the two units U+0069 U+0307;
  \<^item> U+0178 becomes U+00FF;
  \<^item> in U+0100 to U+012F, U+0132 to U+0137 and U+014A to U+0177 the even units, and in
    U+0139 to U+0148 and U+0179 to U+017E the odd units, move up by 1;
  \<^item> every other unit of these ranges stays.
  Units outside these ranges (among them the Greek capital sigma, whose mapping depends
  on its position in the word) are not covered: the table leaves them as they are, and
  no statement below is about them.
\<close>

definition lower_unit :: "nat \<Rightarrow> nat list" where
  "lower_unit n =
     (if (65 \<le> n \<and> n \<le> 90) \<or> (192 \<le> n \<and> n \<le> 222 \<and> n \<noteq> 215) then [n + 32]
      else if n = 304 then [105, 775]
      else if n = 376 then [255]
      else if ((256 \<le> n \<and> n \<le> 303) \<or> (306 \<le> n \<and> n \<le> 311) \<or> (330 \<le> n \<and> n \<le> 375))
              \<and> even n then [n + 1]
      else if ((313 \<le> n \<and> n \<le> 328) \<or> (377 \<le> n \<and> n \<le> 382)) \<and> odd n then [n + 1]
      else [n])"

definition toLowerCase :: "ustring \<Rightarrow> ustring" where
  "toLowerCase s = concat (map lower_unit s)"

text \<open>\<^verbatim>\<open>s.includes(t)\<close>: \<open>t\<close> occurs in \<open>s\<close> as a contiguous run of units.\<close>

fun str_includes :: "ustring \<Rightarrow> ustring \<Rightarrow> bool" where
  "str_includes [] t = (t = [])"
| "str_includes (c # cs) t = (prefix t (c # cs) \<or> str_includes cs t)"

text \<open>
  \<^verbatim>\<open>Array.prototype.sort(cmp)\<close>. The comparator returns a number or \<^verbatim>\<open>NaN\<close> (\<open>None\<close>);
  the sort reads \<^verbatim>\<open>NaN\<close> as \<open>0\<close>. The sort is stable, and for a consistent comparator
  its result is determined: the elements in an order where \<open>cmp\<close> of an earlier and a
  later one is never positive, equal elements in their former order. Insertion from the
  right, each element going in front of the first one it does not exceed, computes that
  order. For a comparator that is not consistent the language leaves the order to the
  engine; the insertion below is then one admissible outcome, and it leaves an array as
  it is when no element exceeds its right neighbour, as a sort that looks for runs does.
\<close>

definition sort_compare :: "('a \<Rightarrow> 'a \<Rightarrow> int option) \<Rightarrow> 'a \<Rightarrow> 'a \<Rightarrow> int" where
  "sort_compare cmp x y = (case cmp x y of None \<Rightarrow> 0 | Some v \<Rightarrow> v)"

fun insert_by :: "('a \<Rightarrow> 'a \<Rightarrow> int option) \<Rightarrow> 'a \<Rightarrow> 'a list \<Rightarrow> 'a list" where
  "insert_by cmp x [] = [x]"
| "insert_by cmp x (y # ys) =
     (if sort_compare cmp x y \<le> 0 then x # y # ys else y # insert_by cmp x ys)"

fun sort_by :: "('a \<Rightarrow> 'a \<Rightarrow> int option) \<Rightarrow> 'a list \<Rightarrow> 'a list" where
  "sort_by cmp [] = []"
| "sort_by cmp (x # xs) = insert_by cmp x (sort_by cmp xs)"

text \<open>
  \<^verbatim>\<open>[...new Set(xs)]\<close>: the distinct values of \<open>xs\<close> in the order of their first
  occurrence.
\<close>

fun set_values :: "'a list \<Rightarrow> 'a list \<Rightarrow> 'a list" where
  "set_values seen [] = seen"
| "set_values seen (x # xs) = set_values (if x \<in> set seen then seen else seen @ [x]) xs"

definition new_Set :: "'a list \<Rightarrow> 'a list" where
  "new_Set xs = set_values [] xs"

text \<open>
  \<^verbatim>\<open>categories.sort()\<close> with no comparator orders strings by their code units,
  lexicographically: the order of lists of units.
\<close>

definition sort_strings :: "ustring list \<Rightarrow> ustring list" where
  "sort_strings xs = sort xs"

section \<open>The derived view\<close>

text \<open>
  \<^verbatim>\<open>getFilteredTransactions\<close> starts from \<^verbatim>\<open>let filtered = transactions\<close>, the very
  array held in the component's state. \<^verbatim>\<open>filter\<close> always builds a new array, while
  \<^verbatim>\<open>sort\<close> reorders the array it is called on and returns that same array. The local
  variable therefore either still names the state's array or holds an array of its own.
\<close>

datatype array_ref = StateArray | OwnArray "transaction list"

definition elements :: "app \<Rightarrow> array_ref \<Rightarrow> transaction list" where
  "elements st r = (case r of StateArray \<Rightarrow> transactions st | OwnArray xs \<Rightarrow> xs)"

definition array_filter :: "(transaction \<Rightarrow> bool) \<Rightarrow> app \<Rightarrow> array_ref \<Rightarrow> array_ref" where
  "array_filter p st r = OwnArray (filter p (elements st r))"

definition array_sort ::
  "(transaction \<Rightarrow> transaction \<Rightarrow> int option) \<Rightarrow> app \<Rightarrow> array_ref \<Rightarrow> array_ref \<times> app"
  where
  "array_sort cmp st r =
     (case r of
        StateArray \<Rightarrow> (StateArray, st\<lparr>transactions := sort_by cmp (transactions st)\<rparr>)
      | OwnArray xs \<Rightarrow> (OwnArray (sort_by cmp xs), st))"

definition matchesSearch :: "ustring \<Rightarrow> transaction \<Rightarrow> bool" where
  "matchesSearch term t =
     (str_includes (toLowerCase (description t)) (toLowerCase term) \<or>
      str_includes (toLowerCase (category t)) (toLowerCase term))"

text \<open>
  The comparator \<^verbatim>\<open>new Date(b.createdAt).getTime() - new Date(a.createdAt).getTime()\<close>:
  a difference with \<^verbatim>\<open>NaN\<close> on either side is \<^verbatim>\<open>NaN\<close>.
\<close>

definition byCreatedAtDesc :: "transaction \<Rightarrow> transaction \<Rightarrow> int option" where
  "byCreatedAtDesc a b =
     (case (createdAt b, createdAt a) of
        (Some tb, Some ta) \<Rightarrow> Some (tb - ta)
      | _ \<Rightarrow> None)"

text \<open>
  The result is the returned array's content together with the state the call leaves
  behind.
\<close>

definition getFilteredTransactions :: "app \<Rightarrow> transaction list \<times> app" where
  "getFilteredTransactions st =
     (let filtered = StateArray;
          filtered =
            (if currentView st = ExpensesView
               then array_filter (\<lambda>t. ttype t = Expense) st filtered
             else if currentView st = IncomeView
               then array_filter (\<lambda>t. ttype t = Income) st filtered
             else filtered);
          filtered =
            (if searchTerm st \<noteq> []
               then array_filter (matchesSearch (searchTerm st)) st filtered
             else filtered);
          filtered =
            (if selectedCategory st \<noteq> []
               then array_filter (\<lambda>t. category t = selectedCategory st) st filtered
             else filtered);
          (sorted_ref, st') = array_sort byCreatedAtDesc st filtered
      in (elements st' sorted_ref, st'))"

definition getCategories :: "app \<Rightarrow> ustring list" where
  "getCategories st = sort_strings (new_Set (map category (transactions st)))"

section \<open>Rendering\<close>

text \<open>\<^verbatim>\<open>xs.slice(start, end)\<close> for indices that are not negative; \<^verbatim>\<open>undefined\<close> as end is \<open>None\<close>.\<close>

definition slice :: "nat \<Rightarrow> nat option \<Rightarrow> 'a list \<Rightarrow> 'a list" where
  "slice start end_opt xs =
     (case end_opt of None \<Rightarrow> drop start xs | Some e \<Rightarrow> drop start (take e xs))"

text \<open>
  \<^verbatim>\<open>renderFilters\<close> returns \<^verbatim>\<open>null\<close> on the dashboard view; elsewhere it renders the
  search input and the category select, whose options are the empty value followed by
  \<^verbatim>\<open>getCategories()\<close>.
\<close>

record filters_view =
  search_value :: ustring
  category_value :: ustring
  category_options :: "ustring list"

definition renderFilters :: "app \<Rightarrow> filters_view option" where
  "renderFilters st =
     (if currentView st = DashboardView then None
      else Some \<lparr>search_value = searchTerm st, category_value = selectedCategory st,
                 category_options = [] # getCategories st\<rparr>)"

text \<open>
  \<^verbatim>\<open>renderTransactionsList\<close>: the line with the number of transactions found, then
  either the empty-state message or one row per transaction of the slice, then on the
  dashboard the button to see all transactions when more than five were found.
\<close>

datatype list_body = EmptyState string | Rows "transaction list"

record list_view =
  found_count :: "nat option"
  body :: list_body
  see_all :: "nat option"

definition msg_adjust_filters :: string where
  "msg_adjust_filters = ''Tente ajustar os filtros de busca''"

definition msg_will_appear :: string where
  "msg_will_appear =
     ''Suas transa'' @ [CHR 0xE7, CHR 0xF5] @ ''es aparecer'' @ [CHR 0xE3] @ ''o aqui''"

definition renderTransactionsList :: "app \<Rightarrow> list_view \<times> app" where
  "renderTransactionsList st =
     (let (filteredTransactions, st') = getFilteredTransactions st
      in (\<lparr>found_count =
              (if length filteredTransactions > 0 then Some (length filteredTransactions)
               else None),
            body =
              (if length filteredTransactions = 0
                 then EmptyState (if searchTerm st' \<noteq> [] then msg_adjust_filters
                                  else msg_will_appear)
               else Rows (slice 0 (if currentView st' = DashboardView then Some 5 else None)
                            filteredTransactions)),
            see_all =
              (if currentView st' = DashboardView \<and> length filteredTransactions > 5
                 then Some (length (transactions st')) else None)\<rparr>,
          st'))"

text \<open>The transactions that get a row on the screen.\<close>

definition displayed :: "list_view \<Rightarrow> transaction list" where
  "displayed v = (case body v of EmptyState m \<Rightarrow> [] | Rows xs \<Rightarrow> xs)"

section \<open>Loading and deleting\<close>

text \<open>
  \<^verbatim>\<open>loadData\<close>, in the copy of the component that calls the API client: it sets the
  loading flag, awaits \<^verbatim>\<open>fetchTransactions(userId)\<close>, stores the answer or, in the
  \<^verbatim>\<open>catch\<close> block, logs and clears, and in the \<^verbatim>\<open>finally\<close> block resets the flag.
  The part before the \<^verbatim>\<open>await\<close> and the part after it are two steps; the outcome of
  the request is an argument of the second. (The other copy of the component fills in
  fixed sample data where the request is, so nothing in its \<^verbatim>\<open>try\<close> block fails.)
\<close>

definition loadData_begin :: "string \<Rightarrow> app \<Rightarrow> app" where
  "loadData_begin uid st =
     st\<lparr>loading := True, requests := requests st @ [FetchTransactions uid]\<rparr>"

definition loadData_settle :: "api_error + transaction list \<times> summary \<Rightarrow> app \<Rightarrow> app" where
  "loadData_settle res st =
     (let st1 =
        (case res of
           Inr (ts, s) \<Rightarrow> st\<lparr>transactions := ts, summary := Some s\<rparr>
         | Inl e \<Rightarrow>
             st\<lparr>console := console st @ [(''Error loading data:'', e)],
                transactions := [], summary := None\<rparr>)
      in st1\<lparr>loading := False\<rparr>)"

definition loadData :: "string \<Rightarrow> api_error + transaction list \<times> summary \<Rightarrow> app \<Rightarrow> app" where
  "loadData uid res st = loadData_settle res (loadData_begin uid st)"

text \<open>
  \<^verbatim>\<open>handleRemoveTransaction\<close>: the answer to \<^verbatim>\<open>window.confirm\<close> and the outcome of
  \<^verbatim>\<open>deleteTransaction\<close> are arguments. After a successful delete \<^verbatim>\<open>loadData()\<close> is
  started but not awaited, and the success alert is shown while its request is pending.
\<close>

definition msg_delete_ok :: string where
  "msg_delete_ok =
     ''Transa'' @ [CHR 0xE7, CHR 0xE3] @ ''o exclu'' @ [CHR 0xED] @ ''da com sucesso!''"

definition msg_delete_failed :: string where
  "msg_delete_failed = ''Erro ao excluir transa'' @ [CHR 0xE7, CHR 0xE3] @ ''o.''"

definition log_delete_failed :: string where
  "log_delete_failed = ''Erro ao excluir transa'' @ [CHR 0xE7, CHR 0xE3] @ ''o:''"

definition handleRemoveTransaction ::
  "string \<Rightarrow> string \<Rightarrow> bool \<Rightarrow> api_error + unit \<Rightarrow> app \<Rightarrow> app" where
  "handleRemoveTransaction uid transactionId isConfirmed deleted st =
     (if isConfirmed then
        (let st1 = st\<lparr>requests := requests st @ [DeleteTransaction uid transactionId]\<rparr>
         in case deleted of
              Inr u \<Rightarrow>
                (let st2 = loadData_begin uid st1
                 in st2\<lparr>alerts := alerts st2 @ [msg_delete_ok]\<rparr>)
            | Inl e \<Rightarrow>
                st1\<lparr>console := console st1 @ [(log_delete_failed, e)],
                    alerts := alerts st1 @ [msg_delete_failed]\<rparr>)
      else st)"

text \<open>
  The whole delete flow: the handler, and then the reload it started, if it started
  one, settling with the outcome of its request.
\<close>

definition removeTransaction ::
  "string \<Rightarrow> string \<Rightarrow> bool \<Rightarrow> api_error + unit \<Rightarrow>
   api_error + transaction list \<times> summary \<Rightarrow> app \<Rightarrow> app" where
  "removeTransaction uid transactionId isConfirmed deleted fetched st =
     (let st1 = handleRemoveTransaction uid transactionId isConfirmed deleted st
      in if isConfirmed \<and> isl deleted = False then loadData_settle fetched st1 else st1)"

section \<open>The user identifier and the component\<close>

text \<open>
  \<^verbatim>\<open>getUserIdFromUrl\<close> reads \<^verbatim>\<open>window.location.search\<close> through
  \<^verbatim>\<open>URLSearchParams\<close>; the model takes the decoded list of name and value pairs.
  \<^verbatim>\<open>get\<close> returns the value of the first pair with the name, or \<^verbatim>\<open>null\<close>; the
  operator \<^verbatim>\<open>||\<close> takes its right operand when the left one is \<^verbatim>\<open>null\<close> or the empty
  string.
\<close>

definition params_get :: "(string \<times> string) list \<Rightarrow> string \<Rightarrow> string option" where
  "params_get params name = map_of params name"

definition getUserIdFromUrl :: "(string \<times> string) list \<Rightarrow> string" where
  "getUserIdFromUrl params =
     (case params_get params ''userId'' of
        None \<Rightarrow> ''default_user''
      | Some v \<Rightarrow> if v = [] then ''default_user'' else v)"

text \<open>
  The component: the effect run on mount starts \<^verbatim>\<open>loadData\<close> for the resolved
  identifier; rendering shows the loading screen while the flag is set, then the
  access-denied screen when the identifier is empty, then the dashboard (of which the
  filters and the transaction list are modelled).
\<close>

datatype screen = LoadingScreen | AccessDenied | DashboardScreen "filters_view option" list_view

definition on_mount :: "(string \<times> string) list \<Rightarrow> app \<Rightarrow> app" where
  "on_mount params st = loadData_begin (getUserIdFromUrl params) st"

definition FinanceDashboard :: "(string \<times> string) list \<Rightarrow> app \<Rightarrow> screen \<times> app" where
  "FinanceDashboard params st =
     (let userId = getUserIdFromUrl params
      in if loading st then (LoadingScreen, st)
         else if userId = [] then (AccessDenied, st)
         else (let filters = renderFilters st;
                   (lst, st') = renderTransactionsList st
               in (DashboardScreen filters lst, st')))"

section \<open>Predicates and sample data used in the statements\<close>

text \<open>
  The condition under which a transaction survives the three \<^verbatim>\<open>if\<close> blocks of
  \<^verbatim>\<open>getFilteredTransactions\<close>, and the condition under which none of the blocks runs.
\<close>

definition kept :: "app \<Rightarrow> transaction \<Rightarrow> bool" where
  "kept st t =
     ((currentView st = ExpensesView \<longrightarrow> ttype t = Expense) \<and>
      (currentView st = IncomeView \<longrightarrow> ttype t = Income) \<and>
      (searchTerm st \<noteq> [] \<longrightarrow> matchesSearch (searchTerm st) t) \<and>
      (selectedCategory st \<noteq> [] \<longrightarrow> category t = selectedCategory st))"

definition unfiltered :: "app \<Rightarrow> bool" where
  "unfiltered st =
     (currentView st \<noteq> ExpensesView \<and> currentView st \<noteq> IncomeView \<and>
      searchTerm st = [] \<and> selectedCategory st = [])"

text \<open>
  The specification's wording of the search, stated without the conversion the code
  uses: the term is a case-insensitive substring of a text when it occurs in the text
  at some position, unit for unit, two units counting as the same when they are equal
  or are the capital and the small form of one letter. The pairs of a capital and its
  small form are listed for U+0000 to U+017F.
\<close>

definition case_pairs :: "(nat \<times> nat) list" where
  "case_pairs =
     map (\<lambda>c. (c, c + 32)) ([65..<91] @ [192..<215] @ [216..<223]) @
     map (\<lambda>c. (c, c + 1)) (filter even ([256..<304] @ [306..<312] @ [330..<376])) @
     map (\<lambda>c. (c, c + 1)) (filter odd ([313..<329] @ [377..<383])) @
     [(304, 105), (376, 255)]"

definition same_letter :: "nat \<Rightarrow> nat \<Rightarrow> bool" where
  "same_letter c d = (c = d \<or> (c, d) \<in> set case_pairs \<or> (d, c) \<in> set case_pairs)"

fun ci_prefix :: "ustring \<Rightarrow> ustring \<Rightarrow> bool" where
  "ci_prefix [] s = True"
| "ci_prefix (c # cs) [] = False"
| "ci_prefix (c # cs) (d # ds) = (same_letter c d \<and> ci_prefix cs ds)"

fun ci_substring :: "ustring \<Rightarrow> ustring \<Rightarrow> bool" where
  "ci_substring term [] = (term = [])"
| "ci_substring term (d # ds) = (ci_prefix term (d # ds) \<or> ci_substring term ds)"

text \<open>A text of Latin-1: every unit is below 256.\<close>

definition latin1 :: "ustring \<Rightarrow> bool" where
  "latin1 s = list_all (\<lambda>c. c < 256) s"

text \<open>
  The two sample transactions of the component's demonstration data (with creation
  times 1000 and 2000), a family of expenses indexed by creation time, an expense whose
  creation date is no date, an expense described by the single letter U+0130, and a
  loaded state with a given view, search term, category and list.
\<close>

definition sample_expense :: transaction where
  "sample_expense =
     \<lparr>tid = ''1'', ttype = Expense, amount = 50, description = units ''Mercado'',
      category = units ''Alimenta'' @ [231, 227] @ units ''o'', createdAt = Some 1000,
      userId = ''user1''\<rparr>"

definition sample_income :: transaction where
  "sample_income =
     \<lparr>tid = ''2'', ttype = Income, amount = 1000,
      description = units ''Sal'' @ [225] @ units ''rio'', category = units ''Trabalho'',
      createdAt = Some 2000, userId = ''user1''\<rparr>"

definition sample_at :: "int \<Rightarrow> transaction" where
  "sample_at n = sample_expense\<lparr>createdAt := Some n\<rparr>"

definition sample_undated :: transaction where
  "sample_undated = sample_expense\<lparr>tid := ''3'', createdAt := None\<rparr>"

definition sample_dotted :: transaction where
  "sample_dotted = sample_expense\<lparr>tid := ''4'', description := [304]\<rparr>"

definition sample_summary :: summary where
  "sample_summary =
     \<lparr>totalIncome = 1000, totalExpenses = 50, balance = 950,
      categorySummary = [(category sample_expense, 50), (units ''Trabalho'', 1000)],
      transactionCount = 2\<rparr>"

definition sample_state :: "ViewMode \<Rightarrow> ustring \<Rightarrow> ustring \<Rightarrow> transaction list \<Rightarrow> app" where
  "sample_state v s c xs =
     initial_app\<lparr>transactions := xs, summary := Some sample_summary, loading := False,
       currentView := v, searchTerm := s, selectedCategory := c\<rparr>"

section \<open>Properties of the sort and of the derived view\<close>

lemma mset_insert_by: "mset (insert_by cmp x ys) = add_mset x (mset ys)"
  by (induction ys) simp_all

lemma mset_sort_by: "mset (sort_by cmp xs) = mset xs"
  by (induction xs) (simp_all add: mset_insert_by)

lemma set_sort_by: "set (sort_by cmp xs) = set xs"
  using mset_sort_by [of cmp xs] by (metis set_mset_mset)

lemma length_sort_by: "length (sort_by cmp xs) = length xs"
  using mset_sort_by [of cmp xs] by (metis size_mset)

lemma insert_by_fixed:
  "successively (\<lambda>a b. sort_compare cmp a b \<le> 0) (x # ys) \<Longrightarrow> insert_by cmp x ys = x # ys"
  by (cases ys) simp_all

lemma sort_by_fixed:
  "successively (\<lambda>a b. sort_compare cmp a b \<le> 0) xs \<Longrightarrow> sort_by cmp xs = xs"
proof (induction xs)
  case Nil
  then show ?case by simp
next
  case (Cons x xs)
  then have "sort_by cmp xs = xs"
    by (cases xs) simp_all
  with Cons.prems show ?case
    by (simp add: insert_by_fixed)
qed

lemma successively_insert_by:
  assumes "\<And>a b. 0 < sort_compare cmp a b \<Longrightarrow> sort_compare cmp b a \<le> 0"
    and "successively (\<lambda>a b. sort_compare cmp a b \<le> 0) ys"
  shows "successively (\<lambda>a b. sort_compare cmp a b \<le> 0) (insert_by cmp x ys)"
  using assms(2)
proof (induction ys)
  case Nil
  then show ?case by simp
next
  case (Cons y ys)
  note outer = Cons.prems
  show ?case
  proof (cases "sort_compare cmp x y \<le> 0")
    case True
    with Cons.prems show ?thesis by simp
  next
    case False
    then have yx: "sort_compare cmp y x \<le> 0"
      using assms(1) [of x y] by simp
    have tl: "successively (\<lambda>a b. sort_compare cmp a b \<le> 0) (insert_by cmp x ys)"
      using Cons by (cases ys) simp_all
    show ?thesis
    proof (cases ys)
      case Nil
      with False yx show ?thesis by simp
    next
      case (Cons z zs)
      with False yx tl outer show ?thesis
        by (cases "sort_compare cmp x z \<le> 0") simp_all
    qed
  qed
qed

lemma successively_sort_by:
  assumes "\<And>a b. 0 < sort_compare cmp a b \<Longrightarrow> sort_compare cmp b a \<le> 0"
  shows "successively (\<lambda>a b. sort_compare cmp a b \<le> 0) (sort_by cmp xs)"
  by (induction xs) (simp_all add: successively_insert_by assms)

text \<open>
  The comparator of the component never puts each of two elements after the other, so
  sorting a list it has sorted changes nothing, whatever the dates.
\<close>

lemma byCreatedAtDesc_antisym:
  "0 < sort_compare byCreatedAtDesc a b \<Longrightarrow> sort_compare byCreatedAtDesc b a \<le> 0"
  by (auto simp: sort_compare_def byCreatedAtDesc_def split: option.splits)

lemma sort_by_idem:
  "sort_by byCreatedAtDesc (sort_by byCreatedAtDesc xs) = sort_by byCreatedAtDesc xs"
  by (rule sort_by_fixed) (rule successively_sort_by, rule byCreatedAtDesc_antisym)

text \<open>The returned array holds the kept transactions of the stored list, sorted.\<close>

lemma derived_list:
  "fst (getFilteredTransactions st) =
     sort_by byCreatedAtDesc (filter (kept st) (transactions st))"
  by (cases "currentView st")
     (auto simp: getFilteredTransactions_def array_filter_def array_sort_def elements_def
        kept_def Let_def
        intro!: arg_cong[where f="sort_by byCreatedAtDesc"] filter_cong)

text \<open>
  The state after the call: when no block ran, the sorted array is the state's own
  array; otherwise the state is as it was.
\<close>

lemma state_after:
  "snd (getFilteredTransactions st) =
     (if unfiltered st
      then st\<lparr>transactions := sort_by byCreatedAtDesc (transactions st)\<rparr> else st)"
  by (auto simp: getFilteredTransactions_def array_filter_def array_sort_def elements_def
        unfiltered_def Let_def)

lemma kept_unfiltered:
  "unfiltered st \<Longrightarrow> currentView st' = currentView st \<Longrightarrow> searchTerm st' = searchTerm st \<Longrightarrow>
   selectedCategory st' = selectedCategory st \<Longrightarrow> kept st' t"
  by (auto simp: kept_def unfiltered_def)

lemma getFilteredTransactions_frame:
  "\<not> unfiltered st \<Longrightarrow> snd (getFilteredTransactions st) = st"
  by (simp add: state_after)

lemma getFilteredTransactions_stored_mset:
  "mset (transactions (snd (getFilteredTransactions st))) = mset (transactions st)"
  by (simp add: state_after mset_sort_by)

lemma getFilteredTransactions_repeat:
  "fst (getFilteredTransactions (snd (getFilteredTransactions st))) =
     fst (getFilteredTransactions st)"
proof (cases "unfiltered st")
  case True
  then show ?thesis
    by (simp add: derived_list state_after kept_unfiltered sort_by_idem)
next
  case False
  then show ?thesis by (simp add: state_after)
qed

section \<open>Helper facts\<close>

lemmas sample_defs = sample_state_def initial_app_def sample_expense_def sample_income_def
  sample_at_def sample_undated_def sample_dotted_def sample_summary_def units_def

lemmas eval_defs = getFilteredTransactions_def array_sort_def array_filter_def elements_def Let_def
  byCreatedAtDesc_def sort_compare_def

lemma kept_set: "set (fst (getFilteredTransactions st)) = {t \<in> set (transactions st). kept st t}"
  by (simp add: derived_list set_sort_by)

text \<open>On transactions that all have a date the sort is the stable sort by descending time.\<close>

lemma insert_by_createdAt:
  "createdAt x \<noteq> None \<Longrightarrow> \<forall>y \<in> set ys. createdAt y \<noteq> None \<Longrightarrow>
   insert_by byCreatedAtDesc x ys = insort_key (\<lambda>t. - the (createdAt t)) x ys"
  by (induction ys) (auto simp: byCreatedAtDesc_def sort_compare_def)

lemma sort_by_createdAt:
  "\<forall>t \<in> set xs. createdAt t \<noteq> None \<Longrightarrow>
   sort_by byCreatedAtDesc xs = sort_key (\<lambda>t. - the (createdAt t)) xs"
  by (induction xs) (simp_all add: insert_by_createdAt)

lemma sorted_desc_nth:
  assumes "sorted (map (\<lambda>t. - the (createdAt t)) r)" "i < length r" "j < length r"
    "the (createdAt (r ! j)) < the (createdAt (r ! i))"
  shows "i < j"
proof (rule ccontr)
  assume "\<not> i < j"
  then have "j \<le> i" by simp
  with assms(1,2) have "map (\<lambda>t. - the (createdAt t)) r ! j \<le> map (\<lambda>t. - the (createdAt t)) r ! i"
    by (simp add: sorted_iff_nth_mono del: nth_map)
  with assms(2,3,4) show False by simp
qed

lemma sort_by_stable:
  assumes "\<forall>t \<in> set xs. createdAt t \<noteq> None"
  shows "filter (\<lambda>t. createdAt t = Some k) (sort_by byCreatedAtDesc xs) =
         filter (\<lambda>t. createdAt t = Some k) xs"
proof -
  have e: "(createdAt t = Some k) = (- the (createdAt t) = - k)" if "t \<in> set xs" for t
    using assms that by auto
  have "filter (\<lambda>t. createdAt t = Some k) (sort_key (\<lambda>t. - the (createdAt t)) xs) =
        filter (\<lambda>t. - the (createdAt t) = - k) (sort_key (\<lambda>t. - the (createdAt t)) xs)"
    by (rule filter_cong) (simp_all add: e)
  also have "\<dots> = filter (\<lambda>t. - the (createdAt t) = - k) xs"
    by (rule sort_key_stable)
  also have "\<dots> = filter (\<lambda>t. createdAt t = Some k) xs"
    by (rule filter_cong) (simp_all add: e)
  finally show ?thesis
    using assms by (simp add: sort_by_createdAt)
qed

lemma case_pairs_latin1:
  "c < 256 \<Longrightarrow> d < 256 \<Longrightarrow>
   (c, d) \<in> set case_pairs \<longleftrightarrow>
     ((65 \<le> c \<and> c \<le> 90) \<or> (192 \<le> c \<and> c \<le> 222 \<and> c \<noteq> 215)) \<and> d = c + 32"
  unfolding case_pairs_def set_append set_map set_filter set_upt
  by auto

lemma lower_unit_latin1:
  "c < 256 \<Longrightarrow>
   lower_unit c = [if (65 \<le> c \<and> c \<le> 90) \<or> (192 \<le> c \<and> c \<le> 222 \<and> c \<noteq> 215) then c + 32 else c]"
  by (simp add: lower_unit_def)

lemma same_letter_latin1:
  assumes "c < 256" "d < 256"
  shows "lower_unit c = lower_unit d \<longleftrightarrow> same_letter c d"
  using assms
  by (simp add: lower_unit_latin1 same_letter_def case_pairs_latin1) arith

lemma str_includes_sublist: "str_includes s t \<longleftrightarrow> sublist t s"
  by (induction s) (simp_all add: sublist_Cons_right)

lemma sublist_map_iff:
  "sublist (map f t) (map f s) \<longleftrightarrow> (\<exists>u. sublist u s \<and> map f u = map f t)"
proof
  assume "sublist (map f t) (map f s)"
  then obtain p q where "map f s = p @ map f t @ q"
    by (auto simp: sublist_def)
  then obtain a b c where "s = a @ b @ c" "map f b = map f t"
    by (auto simp: map_eq_append_conv append_eq_map_conv)
  then show "\<exists>u. sublist u s \<and> map f u = map f t"
    by (auto simp: sublist_def)
next
  assume "\<exists>u. sublist u s \<and> map f u = map f t"
  then obtain u a c where "s = a @ u @ c" "map f u = map f t"
    by (auto simp: sublist_def)
  then have "map f s = map f a @ map f t @ map f c" by simp
  then show "sublist (map f t) (map f s)"
    unfolding sublist_def by blast
qed

lemma toLowerCase_latin1:
  "latin1 s \<Longrightarrow> toLowerCase s = map (\<lambda>c. hd (lower_unit c)) s"
  by (induction s) (simp_all add: latin1_def toLowerCase_def lower_unit_latin1)

lemma lowered_eq_latin1:
  "latin1 u \<Longrightarrow> latin1 t \<Longrightarrow>
   map (\<lambda>c. hd (lower_unit c)) u = map (\<lambda>c. hd (lower_unit c)) t \<longleftrightarrow> list_all2 same_letter t u"
proof (induction u arbitrary: t)
  case Nil
  then show ?case by auto
next
  case (Cons a u)
  show ?case
  proof (cases t)
    case Nil
    then show ?thesis by simp
  next
    case t: (Cons b t')
    have ab: "a < 256" "b < 256" and r: "latin1 u" "latin1 t'"
      using Cons.prems t by (simp_all add: latin1_def)
    have "lower_unit a = [hd (lower_unit a)]" "lower_unit b = [hd (lower_unit b)]"
      using ab by (simp_all add: lower_unit_latin1)
    then have "hd (lower_unit a) = hd (lower_unit b) \<longleftrightarrow> lower_unit b = lower_unit a"
      by metis
    then have "hd (lower_unit a) = hd (lower_unit b) \<longleftrightarrow> same_letter b a"
      using same_letter_latin1 [OF ab(2) ab(1)] by simp
    with Cons.IH [OF r] t show ?thesis by simp
  qed
qed

lemma ci_prefix_iff:
  "ci_prefix t s \<longleftrightarrow> (\<exists>u. prefix u s \<and> list_all2 same_letter t u)"
proof (induction t s rule: ci_prefix.induct)
  case (1 s)
  then show ?case by auto
next
  case (2 c cs)
  then show ?case by (auto simp: list_all2_Cons1)
next
  case (3 c cs d ds)
  show ?case
  proof
    assume "ci_prefix (c # cs) (d # ds)"
    with 3 obtain u where "same_letter c d" "prefix u ds" "list_all2 same_letter cs u"
      by auto
    then have "prefix (d # u) (d # ds) \<and> list_all2 same_letter (c # cs) (d # u)"
      by simp
    then show "\<exists>u. prefix u (d # ds) \<and> list_all2 same_letter (c # cs) u"
      by blast
  next
    assume "\<exists>u. prefix u (d # ds) \<and> list_all2 same_letter (c # cs) u"
    then obtain u where u: "prefix u (d # ds)" "list_all2 same_letter (c # cs) u"
      by blast
    then obtain u' where "u = d # u'" "prefix u' ds" "same_letter c d" "list_all2 same_letter cs u'"
      by (auto simp: list_all2_Cons1 prefix_Cons)
    with 3 show "ci_prefix (c # cs) (d # ds)"
      by auto
  qed
qed

lemma ci_substring_iff:
  "ci_substring t s \<longleftrightarrow> (\<exists>u. sublist u s \<and> list_all2 same_letter t u)"
proof (induction s)
  case Nil
  then show ?case by (auto simp: list_all2_Nil2)
next
  case (Cons d ds)
  then show ?case
    by (auto simp: sublist_Cons_right ci_prefix_iff)
qed

lemma latin1_sublist: "sublist u s \<Longrightarrow> latin1 s \<Longrightarrow> latin1 u"
  by (auto simp: latin1_def sublist_def list_all_iff)

lemma includes_lower_ci:
  assumes "latin1 s" "latin1 t"
  shows "str_includes (toLowerCase s) (toLowerCase t) \<longleftrightarrow> ci_substring t s"
proof -
  have "str_includes (toLowerCase s) (toLowerCase t) \<longleftrightarrow>
        (\<exists>u. sublist u s \<and> map (\<lambda>c. hd (lower_unit c)) u = map (\<lambda>c. hd (lower_unit c)) t)"
    using assms by (simp add: str_includes_sublist toLowerCase_latin1 sublist_map_iff)
  also have "\<dots> \<longleftrightarrow> (\<exists>u. sublist u s \<and> list_all2 same_letter t u)"
    using assms lowered_eq_latin1 latin1_sublist by blast
  finally show ?thesis
    by (simp add: ci_substring_iff)
qed

lemma matchesSearch_ci:
  "latin1 term \<Longrightarrow> latin1 (description t) \<Longrightarrow> latin1 (category t) \<Longrightarrow>
   matchesSearch term t \<longleftrightarrow> ci_substring term (description t) \<or> ci_substring term (category t)"
  by (simp add: matchesSearch_def includes_lower_ci)

lemma ci_substring_empty: "ci_substring [] s"
  by (induction s) simp_all

lemma matches_Mercado: "description t = units ''Mercado'' \<Longrightarrow> matchesSearch (units ''merc'') t"
  by (simp add: matchesSearch_def units_def toLowerCase_def lower_unit_def)

lemma displayed_list:
  "displayed (fst (renderTransactionsList st)) =
     (if currentView st = DashboardView then take 5 (fst (getFilteredTransactions st))
      else fst (getFilteredTransactions st))"
proof -
  have "currentView (snd (getFilteredTransactions st)) = currentView st"
    by (simp add: state_after)
  then show ?thesis
    by (cases "getFilteredTransactions st")
      (simp add: renderTransactionsList_def displayed_def slice_def)
qed

lemma set_values_set: "set (set_values seen xs) = set seen \<union> set xs"
  by (induction xs arbitrary: seen) auto

lemma set_values_distinct: "distinct seen \<Longrightarrow> distinct (set_values seen xs)"
  by (induction xs arbitrary: seen) auto

section \<open>The claims\<close>

text \<open>
  Claim C1. Evaluating \<^verbatim>\<open>getFilteredTransactions\<close> is meant to leave the stored
  transaction list as it is. On the dashboard view with no search term and no category,
  with the two sample transactions stored oldest first, the call leaves them stored
  newest first: the stored list is not what it was.
\<close>

theorem getFilteredTransactions_reorders_stored_list:
  "transactions (sample_state DashboardView [] [] [sample_expense, sample_income]) =
     [sample_expense, sample_income] \<and>
   transactions (snd (getFilteredTransactions
       (sample_state DashboardView [] [] [sample_expense, sample_income]))) =
     [sample_income, sample_expense] \<and>
   [sample_income, sample_expense] \<noteq> [sample_expense, sample_income]"
  by (simp add: getFilteredTransactions_def array_sort_def elements_def Let_def
        sample_state_def initial_app_def sample_expense_def sample_income_def
        byCreatedAtDesc_def sort_compare_def units_def)

text \<open>
  Claim C2. On the expenses view the derived list holds only expenses, on the income view
  only income; on the transactions and dashboard views no transaction is dropped for its
  kind: the derived list is the sorted list of all stored transactions that pass the
  search and category conditions.
\<close>

theorem view_filter:
  "(currentView st = ExpensesView \<longrightarrow>
      (\<forall>t \<in> set (fst (getFilteredTransactions st)). ttype t = Expense)) \<and>
   (currentView st = IncomeView \<longrightarrow>
      (\<forall>t \<in> set (fst (getFilteredTransactions st)). ttype t = Income)) \<and>
   (currentView st = TransactionsView \<or> currentView st = DashboardView \<longrightarrow>
      fst (getFilteredTransactions st) =
        sort_by byCreatedAtDesc
          (filter (\<lambda>t. (searchTerm st \<noteq> [] \<longrightarrow> matchesSearch (searchTerm st) t) \<and>
                        (selectedCategory st \<noteq> [] \<longrightarrow> category t = selectedCategory st))
             (transactions st)))"
proof (intro conjI impI)
  assume "currentView st = ExpensesView"
  then show "\<forall>t \<in> set (fst (getFilteredTransactions st)). ttype t = Expense"
    by (simp add: kept_set kept_def)
next
  assume "currentView st = IncomeView"
  then show "\<forall>t \<in> set (fst (getFilteredTransactions st)). ttype t = Income"
    by (simp add: kept_set kept_def)
next
  assume "currentView st = TransactionsView \<or> currentView st = DashboardView"
  then have "kept st = (\<lambda>t. (searchTerm st \<noteq> [] \<longrightarrow> matchesSearch (searchTerm st) t) \<and>
                        (selectedCategory st \<noteq> [] \<longrightarrow> category t = selectedCategory st))"
    by (auto simp: kept_def fun_eq_iff)
  then show "fst (getFilteredTransactions st) =
        sort_by byCreatedAtDesc
          (filter (\<lambda>t. (searchTerm st \<noteq> [] \<longrightarrow> matchesSearch (searchTerm st) t) \<and>
                        (selectedCategory st \<noteq> [] \<longrightarrow> category t = selectedCategory st))
             (transactions st))"
    by (simp add: derived_list)
qed

theorem view_filter_witness:
  "fst (getFilteredTransactions (sample_state ExpensesView [] [] [sample_expense, sample_income]))
     = [sample_expense] \<and>
   list_all (\<lambda>t. ttype t = Expense) (fst (getFilteredTransactions
        (sample_state ExpensesView [] [] [sample_expense, sample_income]))) \<and>
   fst (getFilteredTransactions (sample_state IncomeView [] [] [sample_expense, sample_income]))
     = [sample_income] \<and>
   list_all (\<lambda>t. ttype t = Income) (fst (getFilteredTransactions
        (sample_state IncomeView [] [] [sample_expense, sample_income]))) \<and>
   fst (getFilteredTransactions
        (sample_state DashboardView [] (units ''Trabalho'') [sample_expense, sample_income]))
     = [sample_income] \<and>
   sort_by byCreatedAtDesc
     (filter (\<lambda>t. category t = (units ''Trabalho'')) [sample_expense, sample_income]) = [sample_income]"
proof -
  let ?e = "sample_state ExpensesView [] [] [sample_expense, sample_income]"
  let ?i = "sample_state IncomeView [] [] [sample_expense, sample_income]"
  let ?d = "sample_state DashboardView [] (units ''Trabalho'') [sample_expense, sample_income]"
  have v: "currentView ?e = ExpensesView" "currentView ?i = IncomeView"
    "currentView ?d = TransactionsView \<or> currentView ?d = DashboardView"
    by (simp_all add: sample_state_def)
  have re: "fst (getFilteredTransactions ?e) = [sample_expense]"
    by (simp add: eval_defs sample_state_def initial_app_def sample_expense_def
          sample_income_def units_def)
  have ri: "fst (getFilteredTransactions ?i) = [sample_income]"
    by (simp add: eval_defs sample_state_def initial_app_def sample_expense_def
          sample_income_def units_def)
  have rd: "fst (getFilteredTransactions ?d) = [sample_income]"
    by (simp add: eval_defs sample_state_def initial_app_def sample_expense_def
          sample_income_def units_def)
  have f: "searchTerm ?d = []" "selectedCategory ?d = (units ''Trabalho'')"
    "transactions ?d = [sample_expense, sample_income]"
    by (simp_all add: sample_state_def)
  have nz: "units ''Trabalho'' \<noteq> []"
    by (simp add: units_def)
  have ae: "list_all (\<lambda>t. ttype t = Expense) (fst (getFilteredTransactions ?e))"
    unfolding list_all_iff
    by (rule view_filter [of ?e, THEN conjunct1, THEN mp, OF v(1)])
  have ai: "list_all (\<lambda>t. ttype t = Income) (fst (getFilteredTransactions ?i))"
    unfolding list_all_iff
    by (rule view_filter [of ?i, THEN conjunct2, THEN conjunct1, THEN mp, OF v(2)])
  have "sort_by byCreatedAtDesc
     (filter (\<lambda>t. category t = (units ''Trabalho'')) [sample_expense, sample_income]) =
     fst (getFilteredTransactions ?d)"
    using view_filter [of ?d, THEN conjunct2, THEN conjunct2, THEN mp, OF v(3)] nz
    unfolding f by simp
  then have ad: "sort_by byCreatedAtDesc
     (filter (\<lambda>t. category t = (units ''Trabalho'')) [sample_expense, sample_income]) = [sample_income]"
    by (simp only: rd)
  from re ae ri ai rd ad show ?thesis
    by (intro conjI)
qed

text \<open>
  Claim C3, as stated, fails for a text with the letter U+0130: lower-casing turns it
  into the two units U+0069 U+0307, so a transaction described by that one letter is
  kept for the search term U+0307, a combining mark that occurs neither in its
  description nor in its category, in any letter case.
\<close>

theorem search_keeps_text_without_term:
  "fst (getFilteredTransactions (sample_state TransactionsView [775] [] [sample_dotted])) =
     [sample_dotted] \<and>
   matchesSearch [775] sample_dotted \<and>
   description sample_dotted = [304] \<and>
   \<not> ci_substring [775] (description sample_dotted) \<and>
   \<not> ci_substring [775] (category sample_dotted)"
  by (simp add: eval_defs sample_defs matchesSearch_def toLowerCase_def lower_unit_def
        same_letter_def case_pairs_def)

text \<open>
  Claim C3, amended. When the search term and the descriptions and categories of the
  stored transactions are texts of Latin-1, the search step keeps exactly the
  transactions whose description or category contains the term as a case-insensitive
  substring; with the empty term it removes nothing. The derived list is the view
  step, then this step, then the category step, then the sort. For a single
  transaction and term of Latin-1 the test of the code and the case-insensitive
  occurrence agree, and the term \<open>merc\<close> matches a transaction described as
  \<open>Mercado\<close>.
\<close>

theorem search_filter:
  assumes "latin1 (searchTerm st)"
    and "\<forall>t \<in> set (transactions st). latin1 (description t) \<and> latin1 (category t)"
  shows "fst (getFilteredTransactions st) =
     sort_by byCreatedAtDesc
       (filter (\<lambda>t. selectedCategory st \<noteq> [] \<longrightarrow> category t = selectedCategory st)
          (filter (\<lambda>t. ci_substring (searchTerm st) (description t) \<or>
                        ci_substring (searchTerm st) (category t))
             (filter (\<lambda>t. (currentView st = ExpensesView \<longrightarrow> ttype t = Expense) \<and>
                           (currentView st = IncomeView \<longrightarrow> ttype t = Income))
                (transactions st)))) \<and>
   (searchTerm st = [] \<longrightarrow>
      filter (\<lambda>t. ci_substring (searchTerm st) (description t) \<or>
                   ci_substring (searchTerm st) (category t)) xs = xs) \<and>
   (latin1 term \<and> latin1 (description t) \<and> latin1 (category t) \<longrightarrow>
      (matchesSearch term t \<longleftrightarrow>
         ci_substring term (description t) \<or> ci_substring term (category t))) \<and>
   (description t = units ''Mercado'' \<longrightarrow> matchesSearch (units ''merc'') t)"
proof -
  have "kept st t \<longleftrightarrow>
          ((currentView st = ExpensesView \<longrightarrow> ttype t = Expense) \<and>
           (currentView st = IncomeView \<longrightarrow> ttype t = Income)) \<and>
          (ci_substring (searchTerm st) (description t) \<or>
           ci_substring (searchTerm st) (category t)) \<and>
          (selectedCategory st \<noteq> [] \<longrightarrow> category t = selectedCategory st)"
    if "t \<in> set (transactions st)" for t
  proof -
    from that assms have "matchesSearch (searchTerm st) t \<longleftrightarrow>
        ci_substring (searchTerm st) (description t) \<or> ci_substring (searchTerm st) (category t)"
      by (simp add: matchesSearch_ci)
    then show ?thesis
      by (cases "searchTerm st = []") (auto simp: kept_def ci_substring_empty)
  qed
  then have "filter (kept st) (transactions st) =
      filter (\<lambda>t. selectedCategory st \<noteq> [] \<longrightarrow> category t = selectedCategory st)
          (filter (\<lambda>t. ci_substring (searchTerm st) (description t) \<or>
                        ci_substring (searchTerm st) (category t))
             (filter (\<lambda>t. (currentView st = ExpensesView \<longrightarrow> ttype t = Expense) \<and>
                           (currentView st = IncomeView \<longrightarrow> ttype t = Income))
                (transactions st)))"
    by (auto intro: filter_cong)
  then show ?thesis
    by (simp add: derived_list ci_substring_empty matchesSearch_ci matches_Mercado)
qed

theorem search_filter_witness:
  "latin1 (searchTerm (sample_state TransactionsView (units ''merc'') []
      [sample_expense, sample_income])) \<and>
   list_all (\<lambda>t. latin1 (description t) \<and> latin1 (category t))
     (transactions (sample_state TransactionsView (units ''merc'') []
        [sample_expense, sample_income])) \<and>
   fst (getFilteredTransactions
          (sample_state TransactionsView (units ''merc'') [] [sample_expense, sample_income])) =
     [sample_expense] \<and>
   description sample_expense = units ''Mercado'' \<and>
   matchesSearch (units ''merc'') sample_expense \<and>
   (ci_substring (units ''merc'') (description sample_expense) \<or>
    ci_substring (units ''merc'') (category sample_expense)) \<and>
   \<not> matchesSearch (units ''merc'') sample_income \<and>
   \<not> (ci_substring (units ''merc'') (description sample_income) \<or>
      ci_substring (units ''merc'') (category sample_income)) \<and>
   searchTerm (sample_state TransactionsView [] [] [sample_expense, sample_income]) = [] \<and>
   filter (\<lambda>t. ci_substring
                  (searchTerm (sample_state TransactionsView [] [] [sample_expense, sample_income]))
                  (description t) \<or>
                ci_substring
                  (searchTerm (sample_state TransactionsView [] [] [sample_expense, sample_income]))
                  (category t))
     [sample_expense, sample_income] = [sample_expense, sample_income]"
proof -
  let ?st = "sample_state TransactionsView (units ''merc'') [] [sample_expense, sample_income]"
  let ?s0 = "sample_state TransactionsView [] [] [sample_expense, sample_income]"
  have l: "latin1 (units ''merc'')" "latin1 (description sample_expense)"
    "latin1 (category sample_expense)" "latin1 (description sample_income)"
    "latin1 (category sample_income)"
    by (simp_all add: latin1_def units_def sample_expense_def sample_income_def)
  have p1: "latin1 (searchTerm ?st)" and p0: "latin1 (searchTerm ?s0)"
    using l(1) by (simp_all add: sample_state_def latin1_def)
  have q1: "list_all (\<lambda>t. latin1 (description t) \<and> latin1 (category t)) (transactions ?st)"
    and q0: "list_all (\<lambda>t. latin1 (description t) \<and> latin1 (category t)) (transactions ?s0)"
    using l by (simp_all add: sample_state_def)
  have r: "fst (getFilteredTransactions ?st) = [sample_expense]"
    by (simp add: eval_defs sample_state_def initial_app_def sample_expense_def
          sample_income_def units_def matchesSearch_def toLowerCase_def lower_unit_def)
  have a: "searchTerm ?s0 = []"
    by (simp add: sample_state_def)
  have d: "description sample_expense = units ''Mercado''"
    by (simp add: sample_expense_def)
  have n: "\<not> matchesSearch (units ''merc'') sample_income"
    by (simp add: matchesSearch_def sample_income_def units_def toLowerCase_def lower_unit_def)
  note w1 = search_filter [OF p1 q1 [unfolded list_all_iff],
              of "[]" "units ''merc''" sample_expense]
  note w2 = search_filter [OF p1 q1 [unfolded list_all_iff],
              of "[]" "units ''merc''" sample_income]
  note w3 = search_filter [OF p0 q0 [unfolded list_all_iff],
              of "[sample_expense, sample_income]" "units ''merc''" sample_expense]
  have m: "matchesSearch (units ''merc'') sample_expense"
    using w1 d by blast
  have c1: "ci_substring (units ''merc'') (description sample_expense) \<or>
    ci_substring (units ''merc'') (category sample_expense)"
    using w1 m l by blast
  have c2: "\<not> (ci_substring (units ''merc'') (description sample_income) \<or>
      ci_substring (units ''merc'') (category sample_income))"
    using w2 n l by blast
  have e: "filter (\<lambda>t. ci_substring (searchTerm ?s0) (description t) \<or>
                ci_substring (searchTerm ?s0) (category t))
     [sample_expense, sample_income] = [sample_expense, sample_income]"
    using w3 a by blast
  from p1 q1 r d m c1 n c2 a e show ?thesis
    by (intro conjI)
qed

text \<open>
  Claim C4, as stated, fails when a creation date is no date. With an undated
  transaction stored between one created at 1000 and one created at 3000, every
  comparison with it yields \<^verbatim>\<open>NaN\<close>, the array counts as ordered, and the derived
  list shows the transaction of 1000 before the transaction of 3000.
\<close>

theorem undated_transaction_breaks_order:
  "fst (getFilteredTransactions
      (sample_state TransactionsView [] []
         [sample_at 1000, sample_undated, sample_at 3000, sample_at 2000])) =
     [sample_at 1000, sample_undated, sample_at 3000, sample_at 2000] \<and>
   createdAt ([sample_at 1000, sample_undated, sample_at 3000, sample_at 2000] ! 0) = Some 1000 \<and>
   createdAt ([sample_at 1000, sample_undated, sample_at 3000, sample_at 2000] ! 2) = Some 3000 \<and>
   createdAt sample_undated = None"
  by (simp add: eval_defs sample_defs)

text \<open>
  Claim C4, amended. When every transaction of the derived list has a creation date
  that is a date, a transaction with a later creation time stands before every
  transaction with an earlier one, and the transactions of any one creation time stand
  in the order they have in the stored list.
\<close>

theorem sorted_newest_first_stable:
  assumes "\<forall>t \<in> set (fst (getFilteredTransactions st)). createdAt t \<noteq> None"
  shows "(\<forall>i j a b. i < length (fst (getFilteredTransactions st)) \<and>
          j < length (fst (getFilteredTransactions st)) \<and>
          createdAt (fst (getFilteredTransactions st) ! i) = Some a \<and>
          createdAt (fst (getFilteredTransactions st) ! j) = Some b \<and> b < a \<longrightarrow> i < j) \<and>
   (\<forall>k. filter (\<lambda>t. createdAt t = Some k) (fst (getFilteredTransactions st)) =
        filter (\<lambda>t. createdAt t = Some k) (filter (kept st) (transactions st)))"
proof (intro conjI allI impI)
  have dated: "\<forall>t \<in> set (filter (kept st) (transactions st)). createdAt t \<noteq> None"
    using assms by (simp add: derived_list set_sort_by)
  {
    fix i j a b
    assume h: "i < length (fst (getFilteredTransactions st)) \<and>
          j < length (fst (getFilteredTransactions st)) \<and>
          createdAt (fst (getFilteredTransactions st) ! i) = Some a \<and>
          createdAt (fst (getFilteredTransactions st) ! j) = Some b \<and> b < a"
    have "sorted (map (\<lambda>t. - the (createdAt t)) (fst (getFilteredTransactions st)))"
      using dated by (simp add: derived_list sort_by_createdAt)
    moreover from h have "the (createdAt (fst (getFilteredTransactions st) ! j))
        < the (createdAt (fst (getFilteredTransactions st) ! i))"
      by simp
    ultimately show "i < j"
      using h by (blast intro: sorted_desc_nth)
  }
  fix k
  show "filter (\<lambda>t. createdAt t = Some k) (fst (getFilteredTransactions st)) =
        filter (\<lambda>t. createdAt t = Some k) (filter (kept st) (transactions st))"
    using dated by (simp only: derived_list sort_by_stable)
qed

theorem sorted_newest_first_stable_witness:
  "list_all (\<lambda>t. createdAt t \<noteq> None)
     (fst (getFilteredTransactions
        (sample_state TransactionsView [] []
           [sample_expense, sample_income, sample_at 2000, sample_at 3000]))) \<and>
   fst (getFilteredTransactions
      (sample_state TransactionsView [] []
         [sample_expense, sample_income, sample_at 2000, sample_at 3000])) =
     [sample_at 3000, sample_income, sample_at 2000, sample_expense] \<and>
   createdAt ([sample_at 3000, sample_income, sample_at 2000, sample_expense] ! 0) = Some 3000 \<and>
   createdAt ([sample_at 3000, sample_income, sample_at 2000, sample_expense] ! 3) = Some 1000 \<and>
   (0::nat) < 3 \<and>
   filter (\<lambda>t. createdAt t = Some 2000)
     (fst (getFilteredTransactions
        (sample_state TransactionsView [] []
           [sample_expense, sample_income, sample_at 2000, sample_at 3000]))) =
     [sample_income, sample_at 2000]"
proof -
  let ?st = "sample_state TransactionsView [] []
         [sample_expense, sample_income, sample_at 2000, sample_at 3000]"
  let ?r = "[sample_at 3000, sample_income, sample_at 2000, sample_expense]"
  have r: "fst (getFilteredTransactions ?st) = ?r"
    by (simp add: eval_defs sample_state_def initial_app_def sample_expense_def
          sample_income_def sample_at_def units_def)
  have c: "createdAt (?r ! 0) = Some 3000" "createdAt (?r ! 3) = Some 1000"
    by (simp_all add: sample_expense_def sample_at_def)
  have p: "list_all (\<lambda>t. createdAt t \<noteq> None) (fst (getFilteredTransactions ?st))"
    unfolding r by (simp add: sample_expense_def sample_income_def sample_at_def)
  have h: "0 < length (fst (getFilteredTransactions ?st)) \<and>
           3 < length (fst (getFilteredTransactions ?st)) \<and>
           createdAt (fst (getFilteredTransactions ?st) ! 0) = Some 3000 \<and>
           createdAt (fst (getFilteredTransactions ?st) ! 3) = Some 1000 \<and>
           (1000::int) < 3000"
    unfolding r using c by simp
  note w = sorted_newest_first_stable [OF p [unfolded list_all_iff]]
  have o: "(0::nat) < 3"
    by (rule w [THEN conjunct1, rule_format, OF h])
  have k: "filter (\<lambda>t. createdAt t = Some 2000) (filter (kept ?st) (transactions ?st)) =
      [sample_income, sample_at 2000]"
    by (simp add: kept_def sample_state_def initial_app_def sample_expense_def
          sample_income_def sample_at_def)
  have s: "filter (\<lambda>t. createdAt t = Some 2000) (fst (getFilteredTransactions ?st)) =
     [sample_income, sample_at 2000]"
    by (rule trans [OF w [THEN conjunct2, rule_format] k])
  from p r c o s show ?thesis
    by (intro conjI)
qed

text \<open>
  Claim C5. On the dashboard view the rows shown are the first five of the derived
  list, so \<open>min n 5\<close> rows for a derived list of length \<open>n\<close>; on every other view all
  \<open>n\<close> are shown.
\<close>

theorem dashboard_truncation:
  "displayed (fst (renderTransactionsList st)) =
     (if currentView st = DashboardView then take 5 (fst (getFilteredTransactions st))
      else fst (getFilteredTransactions st)) \<and>
   length (displayed (fst (renderTransactionsList st))) =
     (if currentView st = DashboardView then min (length (fst (getFilteredTransactions st))) 5
      else length (fst (getFilteredTransactions st)))"
  by (simp add: displayed_list)

theorem dashboard_truncation_witness:
  "length (fst (getFilteredTransactions
       (sample_state DashboardView [] [] (map sample_at [1, 2, 3, 4, 5, 6, 7, 8])))) = 8 \<and>
   displayed (fst (renderTransactionsList
       (sample_state DashboardView [] [] (map sample_at [1, 2, 3, 4, 5, 6, 7, 8])))) =
     map sample_at [8, 7, 6, 5, 4] \<and>
   length (displayed (fst (renderTransactionsList
       (sample_state DashboardView [] [] (map sample_at [1, 2, 3, 4, 5, 6, 7, 8]))))) = 5 \<and>
   length (displayed (fst (renderTransactionsList
       (sample_state TransactionsView [] [] (map sample_at [1, 2, 3, 4, 5, 6, 7, 8]))))) = 8"
proof -
  have d: "fst (getFilteredTransactions
       (sample_state DashboardView [] [] (map sample_at [1, 2, 3, 4, 5, 6, 7, 8]))) =
      map sample_at [8, 7, 6, 5, 4, 3, 2, 1]"
    by (simp add: eval_defs sample_defs)
  have t: "fst (getFilteredTransactions
       (sample_state TransactionsView [] [] (map sample_at [1, 2, 3, 4, 5, 6, 7, 8]))) =
      map sample_at [8, 7, 6, 5, 4, 3, 2, 1]"
    by (simp add: eval_defs sample_defs)
  have v: "currentView (sample_state DashboardView [] [] (map sample_at [1, 2, 3, 4, 5, 6, 7, 8]))
      = DashboardView"
     "currentView (sample_state TransactionsView [] [] (map sample_at [1, 2, 3, 4, 5, 6, 7, 8]))
      \<noteq> DashboardView"
    by (simp_all add: sample_state_def)
  show ?thesis
    using dashboard_truncation
            [of "sample_state DashboardView [] [] (map sample_at [1, 2, 3, 4, 5, 6, 7, 8])"]
          dashboard_truncation
            [of "sample_state TransactionsView [] [] (map sample_at [1, 2, 3, 4, 5, 6, 7, 8])"]
    by (simp only: d t v) simp
qed

text \<open>
  Claim C6. \<^verbatim>\<open>getCategories\<close> returns exactly the category values that occur in
  the stored list, each once, in ascending lexicographic order.
\<close>

theorem getCategories_sorted_distinct:
  "set (getCategories st) = category ` set (transactions st) \<and>
   distinct (getCategories st) \<and> sorted (getCategories st)"
  by (simp add: getCategories_def sort_strings_def new_Set_def set_values_set
        set_values_distinct)

theorem getCategories_sorted_distinct_witness:
  "getCategories (sample_state TransactionsView [] []
      [sample_income, sample_expense, sample_at 5, sample_income]) =
     [category sample_expense, units ''Trabalho''] \<and>
   set [category sample_expense, units ''Trabalho''] =
     category ` set [sample_income, sample_expense, sample_at 5, sample_income] \<and>
   sorted [category sample_expense, units ''Trabalho'']"
proof -
  let ?st = "sample_state TransactionsView [] []
      [sample_income, sample_expense, sample_at 5, sample_income]"
  have g: "getCategories ?st = [category sample_expense, units ''Trabalho'']"
    by (simp add: getCategories_def sort_strings_def new_Set_def sample_defs)
  have t: "transactions ?st = [sample_income, sample_expense, sample_at 5, sample_income]"
    by (simp add: sample_state_def)
  show ?thesis
    using getCategories_sorted_distinct [of ?st] unfolding g t by simp
qed

text \<open>
  Claim C7, as stated, fails in its last clause: after a confirmed delete that
  succeeds, a reload whose request fails leaves the list empty, so the list has changed
  and no refetch has succeeded.
\<close>

theorem failed_reload_clears_list:
  "transactions (sample_state TransactionsView [] [] [sample_expense, sample_income]) =
     [sample_expense, sample_income] \<and>
   transactions (removeTransaction ''user1'' ''1'' True (Inr ()) (Inl NetworkError)
      (sample_state TransactionsView [] [] [sample_expense, sample_income])) = [] \<and>
   summary (removeTransaction ''user1'' ''1'' True (Inr ()) (Inl NetworkError)
      (sample_state TransactionsView [] [] [sample_expense, sample_income])) = None"
  by (simp add: removeTransaction_def handleRemoveTransaction_def loadData_begin_def
        loadData_settle_def Let_def sample_state_def initial_app_def)

text \<open>
  Claim C7, amended. When the user confirms a delete and the delete call fails, the
  stored list, the summary and the loading flag are as before, the error alert is
  shown, the failure is logged and only the delete request was sent. There is no
  optimistic removal: the handler itself never changes the list or the summary. After
  a successful delete it has sent the delete request and then the fetch request of the
  reload, set the loading flag and shown the success alert. The list differs afterwards
  only when the delete was confirmed and succeeded and that reload has settled: a
  reload that succeeds stores the fetched list and summary, a reload that fails stores
  the empty list and no summary and logs the failure. A delete that is not confirmed
  changes nothing.
\<close>

theorem delete_failure_keeps_data:
  "transactions (removeTransaction uid transactionId True (Inl e) fetched st) = transactions st \<and>
   summary (removeTransaction uid transactionId True (Inl e) fetched st) = summary st \<and>
   loading (removeTransaction uid transactionId True (Inl e) fetched st) = loading st \<and>
   alerts (removeTransaction uid transactionId True (Inl e) fetched st) =
     alerts st @ [msg_delete_failed] \<and>
   console (removeTransaction uid transactionId True (Inl e) fetched st) =
     console st @ [(log_delete_failed, e)] \<and>
   requests (removeTransaction uid transactionId True (Inl e) fetched st) =
     requests st @ [DeleteTransaction uid transactionId] \<and>
   transactions (handleRemoveTransaction uid transactionId c d st) = transactions st \<and>
   summary (handleRemoveTransaction uid transactionId c d st) = summary st \<and>
   requests (handleRemoveTransaction uid transactionId True (Inr ()) st) =
     requests st @ [DeleteTransaction uid transactionId, FetchTransactions uid] \<and>
   loading (handleRemoveTransaction uid transactionId True (Inr ()) st) = True \<and>
   alerts (handleRemoveTransaction uid transactionId True (Inr ()) st) =
     alerts st @ [msg_delete_ok] \<and>
   (transactions (removeTransaction uid transactionId c d f st) \<noteq> transactions st \<longrightarrow>
      c \<and> d = Inr ()) \<and>
   (c \<and> d = Inr () \<and> f = Inr (ts, s) \<longrightarrow>
      transactions (removeTransaction uid transactionId c d f st) = ts \<and>
      summary (removeTransaction uid transactionId c d f st) = Some s \<and>
      loading (removeTransaction uid transactionId c d f st) = False) \<and>
   (c \<and> d = Inr () \<and> f = Inl e' \<longrightarrow>
      transactions (removeTransaction uid transactionId c d f st) = [] \<and>
      summary (removeTransaction uid transactionId c d f st) = None \<and>
      loading (removeTransaction uid transactionId c d f st) = False \<and>
      console (removeTransaction uid transactionId c d f st) =
        console st @ [(''Error loading data:'', e')]) \<and>
   (\<not> c \<longrightarrow> removeTransaction uid transactionId c d f st = st)"
  by (cases d; cases f)
     (auto simp: removeTransaction_def handleRemoveTransaction_def loadData_begin_def
        loadData_settle_def Let_def)

theorem delete_failure_keeps_data_witness:
  "transactions (removeTransaction ''user1'' ''1'' True (Inl NetworkError) (Inl NetworkError)
      (sample_state TransactionsView [] [] [sample_expense, sample_income])) =
     [sample_expense, sample_income] \<and>
   alerts (removeTransaction ''user1'' ''1'' True (Inl NetworkError) (Inl NetworkError)
      (sample_state TransactionsView [] [] [sample_expense, sample_income])) =
     [msg_delete_failed] \<and>
   requests (removeTransaction ''user1'' ''1'' True (Inl NetworkError) (Inl NetworkError)
      (sample_state TransactionsView [] [] [sample_expense, sample_income])) =
     [DeleteTransaction ''user1'' ''1''] \<and>
   transactions (removeTransaction ''user1'' ''1'' True (Inr ())
      (Inr ([sample_income], sample_summary))
      (sample_state TransactionsView [] [] [sample_expense, sample_income])) = [sample_income] \<and>
   [sample_income] \<noteq> transactions
      (sample_state TransactionsView [] [] [sample_expense, sample_income]) \<and>
   transactions (removeTransaction ''user1'' ''1'' True (Inr ()) (Inl (HTTPError 500))
      (sample_state TransactionsView [] [] [sample_expense, sample_income])) = [] \<and>
   removeTransaction ''user1'' ''1'' False (Inr ()) (Inl (HTTPError 500))
      (sample_state TransactionsView [] [] [sample_expense, sample_income]) =
     sample_state TransactionsView [] [] [sample_expense, sample_income]"
proof -
  let ?st = "sample_state TransactionsView [] [] [sample_expense, sample_income]"
  have t: "transactions ?st = [sample_expense, sample_income]" and a: "alerts ?st = []"
    and q: "requests ?st = []"
    by (simp_all add: sample_state_def initial_app_def)
  have n: "[sample_income] \<noteq> [sample_expense, sample_income]"
    by simp
  note w1 = delete_failure_keeps_data
              [of "''user1''" "''1''" NetworkError "Inl NetworkError" ?st True "Inl NetworkError"
                 "Inl NetworkError" "[]" sample_summary NetworkError]
  note w2 = delete_failure_keeps_data
              [of "''user1''" "''1''" NetworkError "Inl NetworkError" ?st True "Inr ()"
                 "Inr ([sample_income], sample_summary)" "[sample_income]" sample_summary
                 NetworkError]
  note w3 = delete_failure_keeps_data
              [of "''user1''" "''1''" NetworkError "Inl NetworkError" ?st True "Inr ()"
                 "Inl (HTTPError 500)" "[]" sample_summary "HTTPError 500"]
  note w4 = delete_failure_keeps_data
              [of "''user1''" "''1''" NetworkError "Inl NetworkError" ?st False "Inr ()"
                 "Inl (HTTPError 500)" "[]" sample_summary "HTTPError 500"]
  show ?thesis
    using w1 w2 w3 w4 n unfolding t a q by simp
qed

text \<open>
  Claim C8. When the load fails, the list is set to the empty list and the summary to
  null, one line goes to the console, no alert is shown and the loading flag is cleared.
  The load started on mount is an instance.
\<close>

theorem loadData_failure_clears:
  "transactions (loadData uid (Inl e) st) = [] \<and>
   summary (loadData uid (Inl e) st) = None \<and>
   loading (loadData uid (Inl e) st) = False \<and>
   console (loadData uid (Inl e) st) = console st @ [(''Error loading data:'', e)] \<and>
   alerts (loadData uid (Inl e) st) = alerts st \<and>
   loadData_settle (Inl e) (on_mount params initial_app) =
     loadData (getUserIdFromUrl params) (Inl e) initial_app"
  by (simp add: loadData_def loadData_begin_def loadData_settle_def on_mount_def)

text \<open>
  Claim C9, as stated, fails for a page address whose \<^verbatim>\<open>userId\<close> parameter is present
  but empty: the resolved identifier is the placeholder, not the parameter.
\<close>

theorem getUserIdFromUrl_empty_parameter:
  "params_get [(''userId'', [])] ''userId'' = Some [] \<and>
   getUserIdFromUrl [(''userId'', [])] = ''default_user'' \<and>
   getUserIdFromUrl [(''userId'', [])] \<noteq> []"
  by (simp add: getUserIdFromUrl_def params_get_def)

text \<open>
  Claim C9, amended. The resolved identifier is the \<^verbatim>\<open>userId\<close> parameter when that is
  present and not empty, and the placeholder \<^verbatim>\<open>default_user\<close> otherwise. It is never
  empty, so the component never renders the access-denied screen, and on mount the
  fetch is started for the resolved identifier.
\<close>

theorem user_identifier_resolution:
  "(\<forall>v. params_get params ''userId'' = Some v \<and> v \<noteq> [] \<longrightarrow> getUserIdFromUrl params = v) \<and>
   (params_get params ''userId'' = None \<or> params_get params ''userId'' = Some [] \<longrightarrow>
      getUserIdFromUrl params = ''default_user'') \<and>
   getUserIdFromUrl params \<noteq> [] \<and>
   fst (FinanceDashboard params st) \<noteq> AccessDenied \<and>
   requests (on_mount params st) =
     requests st @ [FetchTransactions (getUserIdFromUrl params)]"
proof -
  have n: "getUserIdFromUrl params \<noteq> []"
    by (simp add: getUserIdFromUrl_def split: option.splits)
  have "fst (FinanceDashboard params st) \<noteq> AccessDenied"
    using n by (cases "renderTransactionsList st") (simp add: FinanceDashboard_def Let_def)
  then show ?thesis
    using n by (auto simp: getUserIdFromUrl_def on_mount_def loadData_begin_def)
qed

theorem user_identifier_resolution_witness:
  "params_get [(''ref'', ''x''), (''userId'', ''u42'')] ''userId'' = Some ''u42'' \<and>
   getUserIdFromUrl [(''ref'', ''x''), (''userId'', ''u42'')] = ''u42'' \<and>
   params_get [] ''userId'' = None \<and>
   getUserIdFromUrl [] = ''default_user'' \<and>
   requests (on_mount [] initial_app) = [FetchTransactions ''default_user'']"
proof -
  have p: "params_get [(''ref'', ''x''), (''userId'', ''u42'')] ''userId'' = Some ''u42''"
    "params_get [] ''userId'' = None" "requests initial_app = []"
    by (simp_all add: params_get_def initial_app_def)
  show ?thesis
    using user_identifier_resolution [of "[(''ref'', ''x''), (''userId'', ''u42'')]" initial_app]
      user_identifier_resolution [of "[]" initial_app] p
    by simp
qed

text \<open>
  Claim C10. On the dashboard view the filter controls are not rendered, yet the rows
  shown are the first five of the sorted list of the transactions that pass the search
  and category conditions, and every row shown passes them.
\<close>

theorem dashboard_filters_hidden_but_applied:
  assumes "currentView st = DashboardView"
  shows "renderFilters st = None \<and>
    displayed (fst (renderTransactionsList st)) =
      take 5 (sort_by byCreatedAtDesc
        (filter (\<lambda>t. (searchTerm st \<noteq> [] \<longrightarrow> matchesSearch (searchTerm st) t) \<and>
                      (selectedCategory st \<noteq> [] \<longrightarrow> category t = selectedCategory st))
           (transactions st))) \<and>
    (\<forall>t \<in> set (displayed (fst (renderTransactionsList st))).
        (searchTerm st \<noteq> [] \<longrightarrow> matchesSearch (searchTerm st) t) \<and>
        (selectedCategory st \<noteq> [] \<longrightarrow> category t = selectedCategory st))"
proof (intro conjI)
  let ?P = "\<lambda>t. (searchTerm st \<noteq> [] \<longrightarrow> matchesSearch (searchTerm st) t) \<and>
                 (selectedCategory st \<noteq> [] \<longrightarrow> category t = selectedCategory st)"
  have k: "kept st t = ?P t" for t
    using assms by (simp add: kept_def)
  have f: "filter (kept st) (transactions st) = filter ?P (transactions st)"
    by (rule filter_cong) (simp_all only: k)
  show "renderFilters st = None"
    using assms by (simp add: renderFilters_def)
  show d: "displayed (fst (renderTransactionsList st)) =
      take 5 (sort_by byCreatedAtDesc (filter ?P (transactions st)))"
    by (simp only: displayed_list derived_list f assms simp_thms if_True)
  show "\<forall>t \<in> set (displayed (fst (renderTransactionsList st))). ?P t"
  proof
    fix t
    assume "t \<in> set (displayed (fst (renderTransactionsList st)))"
    then have "t \<in> set (take 5 (sort_by byCreatedAtDesc (filter ?P (transactions st))))"
      by (simp only: d)
    then have "t \<in> set (sort_by byCreatedAtDesc (filter ?P (transactions st)))"
      by (rule in_set_takeD)
    then have "t \<in> set (filter ?P (transactions st))"
      by (simp only: set_sort_by)
    then show "?P t"
      by (simp only: set_filter mem_Collect_eq) blast
  qed
qed

theorem dashboard_filters_hidden_but_applied_witness:
  "currentView (sample_state DashboardView (units ''merc'') [] [sample_expense, sample_income]) =
     DashboardView \<and>
   renderFilters (sample_state DashboardView (units ''merc'') [] [sample_expense, sample_income]) = None \<and>
   displayed (fst (renderTransactionsList
      (sample_state DashboardView (units ''merc'') [] [sample_expense, sample_income]))) =
     [sample_expense] \<and>
   displayed (fst (renderTransactionsList
      (sample_state DashboardView [] (units ''Trabalho'') [sample_expense, sample_income]))) =
     [sample_income] \<and>
   list_all (\<lambda>t. category t = (units ''Trabalho''))
     (displayed (fst (renderTransactionsList
        (sample_state DashboardView [] (units ''Trabalho'') [sample_expense, sample_income]))))"
proof -
  let ?s1 = "sample_state DashboardView (units ''merc'') [] [sample_expense, sample_income]"
  let ?s2 = "sample_state DashboardView [] (units ''Trabalho'') [sample_expense, sample_income]"
  have v: "currentView ?s1 = DashboardView" "currentView ?s2 = DashboardView"
    by (simp_all add: sample_state_def)
  have c: "selectedCategory ?s2 = (units ''Trabalho'')" "searchTerm ?s2 = []"
    by (simp_all add: sample_state_def)
  have nz: "units ''merc'' \<noteq> []" "units ''Trabalho'' \<noteq> []"
    by (simp_all add: units_def)
  have m: "matchesSearch (units ''merc'') sample_expense" "\<not> matchesSearch (units ''merc'') sample_income"
    by (simp_all add: matchesSearch_def sample_expense_def sample_income_def units_def
          toLowerCase_def lower_unit_def)
  have e1: "take 5 (sort_by byCreatedAtDesc
        (filter (\<lambda>t. (searchTerm ?s1 \<noteq> [] \<longrightarrow> matchesSearch (searchTerm ?s1) t) \<and>
                      (selectedCategory ?s1 \<noteq> [] \<longrightarrow> category t = selectedCategory ?s1))
           (transactions ?s1))) = [sample_expense]"
    using m nz by (simp add: sample_state_def)
  have e2: "take 5 (sort_by byCreatedAtDesc
        (filter (\<lambda>t. (searchTerm ?s2 \<noteq> [] \<longrightarrow> matchesSearch (searchTerm ?s2) t) \<and>
                      (selectedCategory ?s2 \<noteq> [] \<longrightarrow> category t = selectedCategory ?s2))
           (transactions ?s2))) = [sample_income]"
    using nz by (simp add: sample_state_def)
      (simp add: sample_expense_def sample_income_def units_def)
  note w1 = dashboard_filters_hidden_but_applied [OF v(1)]
  note w2 = dashboard_filters_hidden_but_applied [OF v(2)]
  have r1: "renderFilters ?s1 = None"
    by (rule w1 [THEN conjunct1])
  have d1: "displayed (fst (renderTransactionsList ?s1)) = [sample_expense]"
    by (rule trans [OF w1 [THEN conjunct2, THEN conjunct1] e1])
  have d2: "displayed (fst (renderTransactionsList ?s2)) = [sample_income]"
    by (rule trans [OF w2 [THEN conjunct2, THEN conjunct1] e2])
  have "\<forall>t \<in> set (displayed (fst (renderTransactionsList ?s2))).
          selectedCategory ?s2 \<noteq> [] \<longrightarrow> category t = selectedCategory ?s2"
    using w2 [THEN conjunct2, THEN conjunct2] by blast
  then have a2: "list_all (\<lambda>t. category t = (units ''Trabalho''))
          (displayed (fst (renderTransactionsList ?s2)))"
    unfolding list_all_iff using nz(2) by (simp only: c) simp
  from v(1) r1 d1 d2 a2 show ?thesis
    by (intro conjI)
qed

end
